theory Spec2Isabelle
  imports Main "HOL-Library.Multiset"
begin

section \<open>Runtime values\<close>

text \<open>
  The functions of \<^verbatim>\<open>src/index.ts\<close> take values of type \<^verbatim>\<open>unknown\<close>. A value is
  modelled by what the functions can observe of it: its \<^verbatim>\<open>typeof\<close>, whether a number
  is NaN, infinite or finite, which built-in constructor an object is an instance of,
  whether reading its prototype throws, the elements of an array, and (for the test helper
  only) its identity and the text its \<^verbatim>\<open>toString()\<close> gives.

  A finite number is represented by an integer value; none of the functions looks at
  the value of a finite number except to print it. Objects, arrays, functions and
  symbols carry a natural number that stands for their identity (two references are
  the same object exactly when the number and the contents agree).

  An array may be sparse: a slot is either an element (\<^verbatim>\<open>Some\<close>) or a hole
  (\<^verbatim>\<open>None\<close>), and the length of the list is the \<^verbatim>\<open>length\<close> of the array.
\<close>

datatype error = TypeError | Thrown

datatype jsnum = NaN | PosInfinity | NegInfinity | Finite int

datatype objclass = DateObject | RegExpObject | SetObject | EventObject | OtherObject

datatype jsval =
    VUndefined
  | VNull
  | VBoolean bool
  | VNumber jsnum
  | VString string
  | VSymbol nat
  | VBigInt int
  | VFunction nat string
  | VArray nat "jsval option list"
  | VObject nat objclass string
  | VProxy nat bool error "error + string"

text \<open>
  \<^verbatim>\<open>VFunction id src\<close>: a function and its source text. \<^verbatim>\<open>VObject id cls str\<close>: an
  object that is not an array, the built-in class it is an instance of
  (\<^const>\<open>OtherObject\<close> for a plain object, a boxed string and every other object), and
  the string its own \<^verbatim>\<open>toString()\<close> returns.

  \<^verbatim>\<open>VProxy id callable err str\<close>: a \<^verbatim>\<open>Proxy\<close> whose prototype cannot be read, because
  it has been revoked (then \<^verbatim>\<open>err\<close> is \<^const>\<open>TypeError\<close>) or because its
  \<^verbatim>\<open>getPrototypeOf\<close> trap throws (\<^const>\<open>Thrown\<close> stands for the exception of the
  trap). \<^verbatim>\<open>callable\<close> tells whether its target was a function, which \<^verbatim>\<open>typeof\<close>
  reports even after revocation; \<^verbatim>\<open>str\<close> is the outcome of converting it to a string
  (an error for a revoked one). A \<^verbatim>\<open>Proxy\<close> that forwards every operation is observed
  as its target and needs no constructor of its own.
\<close>

text \<open>
  The constructors that the source names on the right of \<^verbatim>\<open>instanceof\<close>. They are
  globals of the host (\<^verbatim>\<open>Event\<close> is one in a browser, where the source's tests build
  an event).
\<close>

datatype ctor = ArrayCtor | DateCtor | RegExpCtor | SetCtor | EventCtor

fun typeof :: "jsval \<Rightarrow> string" where
  "typeof VUndefined = ''undefined''"
| "typeof VNull = ''object''"
| "typeof (VBoolean b) = ''boolean''"
| "typeof (VNumber n) = ''number''"
| "typeof (VString s) = ''string''"
| "typeof (VSymbol i) = ''symbol''"
| "typeof (VBigInt n) = ''bigint''"
| "typeof (VFunction i src) = ''function''"
| "typeof (VArray i xs) = ''object''"
| "typeof (VObject i c str) = ''object''"
| "typeof (VProxy i callable err str) = (if callable then ''function'' else ''object'')"

text \<open>
  \<^verbatim>\<open>v instanceof C\<close> walks the prototype chain of \<^verbatim>\<open>v\<close>. It is false for every
  primitive and for a function, and it throws when the prototype cannot be read.
\<close>

fun instanceof :: "jsval \<Rightarrow> ctor \<Rightarrow> error + bool" where
  "instanceof (VArray i xs) c = Inr (c = ArrayCtor)"
| "instanceof (VObject i DateObject str) c = Inr (c = DateCtor)"
| "instanceof (VObject i RegExpObject str) c = Inr (c = RegExpCtor)"
| "instanceof (VObject i SetObject str) c = Inr (c = SetCtor)"
| "instanceof (VObject i EventObject str) c = Inr (c = EventCtor)"
| "instanceof (VProxy i callable err str) c = Inl err"
| "instanceof v c = Inr False"

text \<open>
  \<^verbatim>\<open>Number.isNaN\<close> and \<^verbatim>\<open>Number.isFinite\<close> answer false for every value that is not
  a number. (The untyped copy of the file calls the global \<^verbatim>\<open>isNaN\<close> and
  \<^verbatim>\<open>isFinite\<close>, which agree with them on numbers, the only values they are applied
  to.)
\<close>

fun Number_isNaN :: "jsval \<Rightarrow> bool" where
  "Number_isNaN (VNumber NaN) = True"
| "Number_isNaN v = False"

fun Number_isFinite :: "jsval \<Rightarrow> bool" where
  "Number_isFinite (VNumber (Finite n)) = True"
| "Number_isFinite v = False"

text \<open>
  Strict equality \<^verbatim>\<open>===\<close>: NaN is equal to nothing, not even itself; every other
  primitive is compared by value and every reference by identity.
\<close>

fun strictEq :: "jsval \<Rightarrow> jsval \<Rightarrow> bool" where
  "strictEq (VNumber NaN) b = False"
| "strictEq a b = (a = b)"

text \<open>
  The callbacks of \<^verbatim>\<open>map\<close>, \<^verbatim>\<open>every\<close> and \<^verbatim>\<open>forEach\<close> are not called for a hole;
  \<^verbatim>\<open>map\<close> leaves the hole in its result. \<^const>\<open>None\<close> is also what reading a hole
  or an index past the end gives, \<^verbatim>\<open>undefined\<close>, where the value read is a string.
  \<^verbatim>\<open>present\<close> lists the elements of an array, \<^verbatim>\<open>hole_first\<close> tells whether its
  index 0 is a hole.
\<close>

fun present :: "'a option list \<Rightarrow> 'a list" where
  "present [] = []"
| "present (None # slots) = present slots"
| "present (Some x # slots) = x # present slots"


definition every :: "('a \<Rightarrow> bool) \<Rightarrow> 'a option list \<Rightarrow> bool" where
  "every f arr = list_all (\<lambda>slot. case slot of None \<Rightarrow> True | Some item \<Rightarrow> f item) arr"

section \<open>The classifier\<close>

definition getType :: "jsval \<Rightarrow> string" where
  "getType v = typeof v"

definition getTypesOfItems :: "jsval option list \<Rightarrow> string option list" where
  "getTypesOfItems arr = map (map_option (\<lambda>item. getType item)) arr"

text \<open>
  \<^verbatim>\<open>getRealType\<close>. The result is the label, or the error that one of the
  \<^verbatim>\<open>instanceof\<close> tests throws.
\<close>

definition getRealType :: "jsval \<Rightarrow> error + string" where
  "getRealType v =
     (let type = typeof v in
      if type = ''number'' then
        (if Number_isNaN v then Inr ''NaN''
         else if Number_isFinite v then Inr type
         else Inr ''Infinity'')
      else if type = ''object'' then
        (if strictEq v VNull then Inr ''null''
         else case instanceof v ArrayCtor of Inl e \<Rightarrow> Inl e | Inr is_array \<Rightarrow>
           if is_array then Inr ''array''
           else case instanceof v DateCtor of Inl e \<Rightarrow> Inl e | Inr is_date \<Rightarrow>
             if is_date then Inr ''date''
             else case instanceof v RegExpCtor of Inl e \<Rightarrow> Inl e | Inr is_regexp \<Rightarrow>
               if is_regexp then Inr ''regexp''
               else case instanceof v SetCtor of Inl e \<Rightarrow> Inl e | Inr is_set \<Rightarrow>
                 if is_set then Inr ''set''
                 else case instanceof v EventCtor of Inl e \<Rightarrow> Inl e | Inr is_event \<Rightarrow>
                   if is_event then Inr ''event''
                   else Inr type)
      else Inr type)"

text \<open>
  \<^verbatim>\<open>getRealTypesOfItems\<close>: \<^verbatim>\<open>map\<close> calls the classifier on the elements from left to
  right, keeps the holes, and ends at the first error.
\<close>

fun getRealTypesOfItems :: "jsval option list \<Rightarrow> error + string option list" where
  "getRealTypesOfItems [] = Inr []"
| "getRealTypesOfItems (None # rest) =
     (case getRealTypesOfItems rest of Inl e \<Rightarrow> Inl e | Inr types \<Rightarrow> Inr (None # types))"
| "getRealTypesOfItems (Some item # rest) =
     (case getRealType item of
        Inl e \<Rightarrow> Inl e
      | Inr type \<Rightarrow>
          (case getRealTypesOfItems rest of Inl e \<Rightarrow> Inl e | Inr types \<Rightarrow> Inr (Some type # types)))"

text \<open>The labels \<^const>\<open>getRealType\<close> can return.\<close>

definition realTypeLabels :: "string list" where
  "realTypeLabels =
     [''NaN'', ''number'', ''Infinity'', ''null'', ''array'', ''date'', ''regexp'', ''set'',
      ''event'', ''object'', ''undefined'', ''boolean'', ''string'', ''symbol'', ''bigint'',
      ''function'']"

section \<open>The aggregates\<close>

text \<open>
  \<^verbatim>\<open>types.every((item) => item === types[0])\<close>: \<^verbatim>\<open>types[0]\<close> is \<^verbatim>\<open>undefined\<close>
  (\<^const>\<open>None\<close>) when the array is empty and when its index 0 is a hole; \<^verbatim>\<open>every\<close>
  stops at the first element that fails the test, as \<^const>\<open>list_all\<close> does.
\<close>

definition first_item :: "string option list \<Rightarrow> string option" where
  "first_item types = (case types of [] \<Rightarrow> None | slot # slots \<Rightarrow> slot)"

definition allItemsHaveTheSameType :: "jsval option list \<Rightarrow> bool" where
  "allItemsHaveTheSameType arr =
     (let types = getTypesOfItems arr in
      every (\<lambda>item. Some item = first_item types) types)"




text \<open>
  The values on which the classifier throws: the objects (not the functions) whose
  prototype cannot be read. The label of a value that has one.
\<close>

fun unreadable :: "jsval \<Rightarrow> bool" where
  "unreadable (VProxy i callable err str) = (\<not> callable)"
| "unreadable v = False"

definition label_of :: "jsval \<Rightarrow> string" where
  "label_of v = (case getRealType v of Inl e \<Rightarrow> [] | Inr l \<Rightarrow> l)"

section \<open>The histogram \<^verbatim>\<open>countRealTypes\<close>\<close>

text \<open>
  The local object \<^verbatim>\<open>types\<close> is a table from labels to counts. \<^verbatim>\<open>Object.entries\<close>
  lists the own properties in the order in which they were created (no label is an
  array index, the only keys that would be listed first), so the table is an
  association list in insertion order: assigning to an existing key keeps its place,
  assigning to a new key appends it. No label is the name of a property of
  \<^verbatim>\<open>Object.prototype\<close>, so reading \<^verbatim>\<open>types[type]\<close> finds an own property or
  \<^verbatim>\<open>undefined\<close> (\<^const>\<open>None\<close>). Counts start at 1 and grow by 1 for each element of an
  array, whose length is below \<^verbatim>\<open>2^32\<close>; they are natural numbers here.
\<close>

type_synonym ITypes = "(string \<times> nat) list"

definition get_prop :: "ITypes \<Rightarrow> string \<Rightarrow> nat option" where
  "get_prop types type = map_of types type"

fun set_prop :: "ITypes \<Rightarrow> string \<Rightarrow> nat \<Rightarrow> ITypes" where
  "set_prop [] type v = [(type, v)]"
| "set_prop ((k, n) # rest) type v =
     (if k = type then (k, v) # rest else (k, n) # set_prop rest type v)"

text \<open>
  The callback of \<^verbatim>\<open>forEach\<close>. The test \<^verbatim>\<open>if (types[type])\<close> is true for a count
  other than 0 and false for 0 and for \<^verbatim>\<open>undefined\<close>. \<^verbatim>\<open>forEach\<close> calls it on the
  elements from left to right, skips the holes, and ends at the first error.
\<close>

definition tally :: "ITypes \<Rightarrow> jsval \<Rightarrow> error + ITypes" where
  "tally types item =
     (case getRealType item of
        Inl e \<Rightarrow> Inl e
      | Inr type \<Rightarrow>
          (case get_prop types type of
             Some n \<Rightarrow> if n \<noteq> 0 then Inr (set_prop types type (n + 1))
                       else Inr (set_prop types type 1)
           | None \<Rightarrow> Inr (set_prop types type 1)))"

fun forEach_tally :: "ITypes \<Rightarrow> jsval option list \<Rightarrow> error + ITypes" where
  "forEach_tally types [] = Inr types"
| "forEach_tally types (None # rest) = forEach_tally types rest"
| "forEach_tally types (Some item # rest) =
     (case tally types item of Inl e \<Rightarrow> Inl e | Inr types' \<Rightarrow> forEach_tally types' rest)"

text \<open>
  \<^verbatim>\<open>Array.prototype.sort\<close> with a comparator. ECMAScript requires the sort to be stable
  and leaves the algorithm open; it is modelled as an insertion sort that takes the
  elements from left to right and puts each one before the first element that the
  comparator ranks after it. The comparator returns a negative number, zero or a
  positive number.
\<close>

fun insert_by :: "('a \<Rightarrow> 'a \<Rightarrow> int) \<Rightarrow> 'a \<Rightarrow> 'a list \<Rightarrow> 'a list" where
  "insert_by cmp x [] = [x]"
| "insert_by cmp x (y # ys) =
     (if cmp x y < 0 then x # y # ys else y # insert_by cmp x ys)"

definition sort_by :: "('a \<Rightarrow> 'a \<Rightarrow> int) \<Rightarrow> 'a list \<Rightarrow> 'a list" where
  "sort_by cmp xs = foldl (\<lambda>sorted x. insert_by cmp x sorted) [] xs"

text \<open>
  \<^verbatim>\<open>countRealTypes\<close>. The comparator \<^verbatim>\<open>a[0].localeCompare(b[0])\<close> calls the host's
  \<^verbatim>\<open>String.prototype.localeCompare\<close>, whose result depends on the locale the program
  runs in; it is the first argument of the model.
\<close>

definition countRealTypes ::
  "(string \<Rightarrow> string \<Rightarrow> int) \<Rightarrow> jsval option list \<Rightarrow> error + (string \<times> nat) list" where
  "countRealTypes localeCompare arr =
     (case forEach_tally [] arr of
        Inl e \<Rightarrow> Inl e
      | Inr types \<Rightarrow> Inr (sort_by (\<lambda>a b. localeCompare (fst a) (fst b)) types))"

text \<open>
  Two concrete comparators on strings. \<^verbatim>\<open>localeCompare_root\<close> is
  \<^verbatim>\<open>localeCompare\<close> as the hosts with the Unicode collation algorithm compute it in the
  root and English locales, on strings of ASCII letters (every label is one): the strings
  are first compared letter by letter without regard to case, and only if that finds no
  difference, by case, a lower-case letter before its capital. \<^verbatim>\<open>codepointCompare\<close>
  is the comparison of the operators \<^verbatim>\<open><\<close> and \<^verbatim>\<open>>\<close> on strings, by code units.
\<close>

fun compare_weights :: "nat list \<Rightarrow> nat list \<Rightarrow> int" where
  "compare_weights [] [] = 0"
| "compare_weights [] (y # ys) = -1"
| "compare_weights (x # xs) [] = 1"
| "compare_weights (x # xs) (y # ys) =
     (if x < y then -1 else if y < x then 1 else compare_weights xs ys)"

definition is_upper :: "char \<Rightarrow> bool" where
  "is_upper c = (65 \<le> (of_char c :: nat) \<and> (of_char c :: nat) \<le> 90)"

definition primary_weight :: "char \<Rightarrow> nat" where
  "primary_weight c = (if is_upper c then of_char c + 32 else of_char c)"

definition tertiary_weight :: "char \<Rightarrow> nat" where
  "tertiary_weight c = (if is_upper c then 1 else 0)"

definition localeCompare_root :: "string \<Rightarrow> string \<Rightarrow> int" where
  "localeCompare_root a b =
     (let p = compare_weights (map primary_weight a) (map primary_weight b) in
      if p \<noteq> 0 then p
      else compare_weights (map tertiary_weight a) (map tertiary_weight b))"

definition codepointCompare :: "string \<Rightarrow> string \<Rightarrow> int" where
  "codepointCompare a b = compare_weights (map of_char a) (map of_char b)"

text \<open>
  What the theorems about the order of the output ask of the comparator, on the labels
  that occur in the input: it is antisymmetric in sign, returns zero only for equal
  labels, and is transitive.
\<close>

definition orders_labels :: "(string \<Rightarrow> string \<Rightarrow> int) \<Rightarrow> string set \<Rightarrow> bool" where
  "orders_labels cmp L =
     ((\<forall>a \<in> L. \<forall>b \<in> L. (cmp a b < 0 \<longleftrightarrow> 0 < cmp b a) \<and> (cmp a b = 0 \<longleftrightarrow> a = b))
      \<and> (\<forall>a \<in> L. \<forall>b \<in> L. \<forall>c \<in> L. cmp a b < 0 \<and> cmp b c < 0 \<longrightarrow> cmp a c < 0))"

text \<open>
  Notions used in the proofs: the count a table holds for a label, the tables the loop
  can reach (keys pairwise different, no count zero), what one call of the callback does
  to such a table, and a comparator whose negative results form a strict linear order on
  a set.
\<close>

definition count_of :: "ITypes \<Rightarrow> string \<Rightarrow> nat" where
  "count_of types l = (case map_of types l of None \<Rightarrow> 0 | Some n \<Rightarrow> n)"

definition table_ok :: "ITypes \<Rightarrow> bool" where
  "table_ok types = (distinct (map fst types) \<and> 0 \<notin> snd ` set types)"

definition count_label :: "ITypes \<Rightarrow> string \<Rightarrow> ITypes" where
  "count_label types l = set_prop types l (count_of types l + 1)"

definition strict_on :: "('a \<Rightarrow> 'a \<Rightarrow> int) \<Rightarrow> 'a set \<Rightarrow> bool" where
  "strict_on cmp S =
     ((\<forall>a \<in> S. \<not> cmp a a < 0)
      \<and> (\<forall>a \<in> S. \<forall>b \<in> S. a \<noteq> b \<longrightarrow> cmp a b < 0 \<or> cmp b a < 0)
      \<and> (\<forall>a \<in> S. \<forall>b \<in> S. \<forall>c \<in> S. cmp a b < 0 \<and> cmp b c < 0 \<longrightarrow> cmp a c < 0))"

text \<open>The output for an array whose elements, in order, have the labels \<^verbatim>\<open>ls\<close>.\<close>

definition histogram :: "(string \<Rightarrow> string \<Rightarrow> int) \<Rightarrow> string list \<Rightarrow> (string \<times> nat) list" where
  "histogram cmp ls = sort_by (\<lambda>a b. cmp (fst a) (fst b)) (foldl count_label [] ls)"

section \<open>The equality of the test helper \<^verbatim>\<open>areEqual\<close>\<close>










section \<open>Properties of the classifier\<close>

lemma getRealType_readable:
  "\<not> unreadable v \<Longrightarrow> \<exists>l. getRealType v = Inr l \<and> l \<in> set realTypeLabels"
  by (cases "(v, ArrayCtor)" rule: instanceof.cases; cases v)
     (auto simp: getRealType_def realTypeLabels_def split: jsnum.splits)

lemma getRealType_unreadable:
  "unreadable v \<Longrightarrow> \<exists>e. getRealType v = Inl e"
  by (cases v) (auto simp: getRealType_def)



text \<open>
  C5. The distinguished inputs have fixed labels: NaN is \<^verbatim>\<open>"NaN"\<close>, both infinities are
  \<^verbatim>\<open>"Infinity"\<close>, null is \<^verbatim>\<open>"null"\<close>, the empty array is \<^verbatim>\<open>"array"\<close> and the empty
  object literal is \<^verbatim>\<open>"object"\<close>.
\<close>

theorem getRealType_distinguished:
  "getRealType (VNumber NaN) = Inr ''NaN''
   \<and> getRealType (VNumber PosInfinity) = Inr ''Infinity''
   \<and> getRealType (VNumber NegInfinity) = Inr ''Infinity''
   \<and> getRealType VNull = Inr ''null''
   \<and> getRealType (VArray i []) = Inr ''array''
   \<and> getRealType (VObject j OtherObject ''[object Object]'') = Inr ''object''"
  by (simp add: getRealType_def)

text \<open>
  C5 with the array and the object at the identities 0 and 1.
\<close>

theorem getRealType_distinguished_witness:
  "getRealType (VArray 0 []) = Inr ''array''
   \<and> getRealType (VObject 1 OtherObject ''[object Object]'') = Inr ''object''
   \<and> getRealType (VNumber NegInfinity) = Inr ''Infinity''"
  using getRealType_distinguished [of 0 1] by simp




section \<open>Properties of the aggregates over the classifier\<close>


lemma present_map: "present (map (map_option f) slots) = map f (present slots)"
  by (induction slots rule: present.induct) auto

lemma every_iff: "every f slots = (\<forall>x \<in> set (present slots). f x)"
  by (induction slots rule: present.induct) (auto simp: every_def)

lemma allItems_nil: "allItemsHaveTheSameType []"
  by (simp add: allItemsHaveTheSameType_def getTypesOfItems_def every_def)

lemma allItems_iff:
  "allItemsHaveTheSameType (Some v # vs) = (\<forall>x \<in> set (present (Some v # vs)). getType x = getType v)"
  by (auto simp: allItemsHaveTheSameType_def getTypesOfItems_def first_item_def every_iff
        present_map Let_def)

lemma allItems_hole_first:
  "allItemsHaveTheSameType (None # vs) = (present vs = [])"
proof -
  have "allItemsHaveTheSameType (None # vs) = (\<forall>x \<in> set (present vs). False)"
    by (simp add: allItemsHaveTheSameType_def getTypesOfItems_def first_item_def every_iff
        present_map Let_def)
  then show ?thesis by (cases "present vs") auto
qed

text \<open>
  C2, as stated, fails. \<^verbatim>\<open>allItemsHaveTheSameType\<close> compares the results of
  \<^verbatim>\<open>getType\<close> (plain \<^verbatim>\<open>typeof\<close>), not those of \<^verbatim>\<open>getRealType\<close>. On the array
  \<^verbatim>\<open>[123, NaN, Infinity]\<close> (the source's own test \<^verbatim>\<open>Values like a number\<close>, which expects
  \<^verbatim>\<open>true\<close>) it answers true although the second element's real type \<^verbatim>\<open>"NaN"\<close> differs
  from the first element's real type \<^verbatim>\<open>"number"\<close>.
\<close>

theorem allItemsHaveTheSameType_counterexample:
  "allItemsHaveTheSameType [Some (VNumber (Finite 123)), Some (VNumber NaN), Some (VNumber PosInfinity)]
   \<and> getRealType (VNumber NaN) \<noteq> getRealType (VNumber (Finite 123))"
  by (simp add: allItemsHaveTheSameType_def getTypesOfItems_def first_item_def every_def
      getType_def getRealType_def)

text \<open>
  C2, amended. For an array whose index 0 holds an element, \<^verbatim>\<open>allItemsHaveTheSameType\<close> is
  true exactly when every element present (\<^verbatim>\<open>every\<close> skips the holes) has the same
  \<^verbatim>\<open>typeof\<close> (\<^verbatim>\<open>getType\<close>) as the first element; on the empty array it is true. (What the
  function answers when index 0 is a hole is lemma \<open>allItems_hole_first\<close>; the
  amended claim does not speak of that case.)
\<close>

theorem allItemsHaveTheSameType_basic:
  "allItemsHaveTheSameType []
   \<and> allItemsHaveTheSameType (Some v # vs)
       = (\<forall>x \<in> set (present (Some v # vs)). getType x = getType v)"
  using allItems_nil allItems_iff by blast

text \<open>
  C2, amended, at the arrays \<^verbatim>\<open>[11, 12, 13]\<close> and \<^verbatim>\<open>['11', new String('12'), '13']\<close> of the
  source's tests and at the sparse array \<^verbatim>\<open>[1, , 2]\<close>.
\<close>

theorem allItemsHaveTheSameType_basic_witness:
  "allItemsHaveTheSameType [Some (VNumber (Finite 11)), Some (VNumber (Finite 12)), Some (VNumber (Finite 13))]
   \<and> \<not> allItemsHaveTheSameType [Some (VString ''11''), Some (VObject 0 OtherObject ''12''), Some (VString ''13'')]
   \<and> allItemsHaveTheSameType [Some (VNumber (Finite 1)), None, Some (VNumber (Finite 2))]"
  using allItemsHaveTheSameType_basic [of "VNumber (Finite 11)" "[Some (VNumber (Finite 12)), Some (VNumber (Finite 13))]"]
        allItemsHaveTheSameType_basic [of "VString ''11''" "[Some (VObject 0 OtherObject ''12''), Some (VString ''13'')]"]
        allItemsHaveTheSameType_basic [of "VNumber (Finite 1)" "[None, Some (VNumber (Finite 2))]"]
  by (simp add: getType_def)

lemma classify_ok:
  "getRealTypesOfItems arr = Inr ts \<Longrightarrow>
   ts = map (map_option label_of) arr \<and> (\<forall>v \<in> set (present arr). getRealType v = Inr (label_of v))"
proof (induction arr arbitrary: ts rule: getRealTypesOfItems.induct)
  case 1
  then show ?case by simp
next
  case (2 rest)
  from "2.prems" obtain ts' where r: "getRealTypesOfItems rest = Inr ts'" and ts: "ts = None # ts'"
    by (auto split: sum.splits)
  from "2.IH" [OF r] ts show ?case by simp
next
  case (3 item rest)
  from "3.prems" obtain l ts' where l: "getRealType item = Inr l"
    and r: "getRealTypesOfItems rest = Inr ts'" and ts: "ts = Some l # ts'"
    by (auto split: sum.splits)
  from l have ll: "label_of item = l" by (simp add: label_of_def)
  from "3.IH" [OF l r] ts l ll show ?case by simp
qed

lemma classify_all:
  "\<forall>v \<in> set (present arr). \<exists>l. getRealType v = Inr l \<Longrightarrow>
   getRealTypesOfItems arr = Inr (map (map_option label_of) arr)"
  by (induction arr rule: getRealTypesOfItems.induct) (auto simp: label_of_def)

lemma classify_readable:
  "\<forall>v \<in> set (present arr). \<not> unreadable v \<Longrightarrow>
   getRealTypesOfItems arr = Inr (map (map_option label_of) arr)"
  by (rule classify_all) (use getRealType_readable in blast)









section \<open>Properties of the histogram\<close>

subsection \<open>The table of counts\<close>


lemma keys_set_prop: "fst ` set (set_prop types k v) = insert k (fst ` set types)"
  by (induction types k v rule: set_prop.induct) auto

lemma distinct_set_prop:
  "distinct (map fst types) \<Longrightarrow> distinct (map fst (set_prop types k v))"
proof (induction types k v rule: set_prop.induct)
  case (1 type v)
  then show ?case by simp
next
  case (2 k n rest type v)
  then show ?case using keys_set_prop [of rest type v] by auto
qed

lemma values_set_prop: "snd ` set (set_prop types k v) \<subseteq> insert v (snd ` set types)"
  by (induction types k v rule: set_prop.induct) auto

lemma sum_set_prop:
  "distinct (map fst types) \<Longrightarrow>
   sum_list (map snd (set_prop types k v)) + count_of types k = sum_list (map snd types) + v"
proof (induction types k v rule: set_prop.induct)
  case (1 type v)
  then show ?case by (simp add: count_of_def)
next
  case (2 k n rest type v)
  show ?case
  proof (cases "k = type")
    case True
    with 2 have "map_of rest type = None" by (auto simp: map_of_eq_None_iff)
    with True show ?thesis by (simp add: count_of_def)
  next
    case False
    with 2 show ?thesis by (simp add: count_of_def)
  qed
qed

lemma tally_eq:
  assumes "table_ok types" "getRealType item = Inr l"
  shows "tally types item = Inr (count_label types l)"
proof (cases "map_of types l")
  case None
  with assms(2) show ?thesis by (simp add: tally_def get_prop_def count_label_def count_of_def)
next
  case (Some n)
  then have "(l, n) \<in> set types" by (rule map_of_SomeD)
  then have "n \<in> snd ` set types" by force
  with assms(1) have "n \<noteq> 0" unfolding table_ok_def by metis
  with Some assms(2) show ?thesis
    by (simp add: tally_def get_prop_def count_label_def count_of_def)
qed

lemma tally_Inr:
  "tally types item = Inr types' \<Longrightarrow> \<exists>l. getRealType item = Inr l"
  by (cases "getRealType item") (simp_all add: tally_def)

lemma table_ok_count_label: "table_ok types \<Longrightarrow> table_ok (count_label types l)"
proof -
  assume ok: "table_ok types"
  have "0 \<notin> snd ` set (set_prop types l (count_of types l + 1))"
    using values_set_prop [of types l "count_of types l + 1"] ok
    by (auto simp: table_ok_def)
  with ok show ?thesis by (simp add: count_label_def table_ok_def distinct_set_prop)
qed


lemma keys_count_label: "fst ` set (count_label types l) = insert l (fst ` set types)"
  by (simp add: count_label_def keys_set_prop)

lemma sum_count_label:
  "table_ok types \<Longrightarrow> sum_list (map snd (count_label types l)) = sum_list (map snd types) + 1"
  using sum_set_prop [of types l "count_of types l + 1"]
  by (simp add: count_label_def table_ok_def)

lemma table_ok_foldl: "table_ok types \<Longrightarrow> table_ok (foldl count_label types ls)"
  by (induction ls arbitrary: types) (simp_all add: table_ok_count_label)


lemma keys_foldl: "fst ` set (foldl count_label types ls) = fst ` set types \<union> set ls"
  by (induction ls arbitrary: types) (simp_all add: keys_count_label)

lemma sum_foldl:
  "table_ok types \<Longrightarrow>
   sum_list (map snd (foldl count_label types ls)) = sum_list (map snd types) + length ls"
  by (induction ls arbitrary: types) (simp_all add: table_ok_count_label sum_count_label)

lemma table_ok_empty: "table_ok []"
  by (simp add: table_ok_def)

lemma forEach_fold:
  "\<forall>v \<in> set (present arr). getRealType v = Inr (label_of v) \<Longrightarrow> table_ok types \<Longrightarrow>
   forEach_tally types arr = Inr (foldl count_label types (map label_of (present arr)))"
proof (induction types arr rule: forEach_tally.induct)
  case (1 types)
  then show ?case by simp
next
  case (2 types rest)
  then show ?case by simp
next
  case (3 types item rest)
  from "3.prems" have l: "getRealType item = Inr (label_of item)" by simp
  have t: "tally types item = Inr (count_label types (label_of item))"
    using "3.prems"(2) l by (rule tally_eq)
  have "forEach_tally (count_label types (label_of item)) rest
          = Inr (foldl count_label (count_label types (label_of item)) (map label_of (present rest)))"
    using "3.IH" [OF t] "3.prems" by (simp add: table_ok_count_label)
  with t show ?case by simp
qed

lemma forEach_classified:
  "forEach_tally types arr = Inr E \<Longrightarrow>
   \<forall>v \<in> set (present arr). getRealType v = Inr (label_of v)"
proof (induction types arr rule: forEach_tally.induct)
  case (1 types)
  then show ?case by simp
next
  case (2 types rest)
  then show ?case by simp
next
  case (3 types item rest)
  from "3.prems" obtain types' where t: "tally types item = Inr types'"
    and r: "forEach_tally types' rest = Inr E"
    by (auto split: sum.splits)
  from t obtain l where "getRealType item = Inr l" using tally_Inr by blast
  then have "getRealType item = Inr (label_of item)" by (simp add: label_of_def)
  with "3.IH" [OF t r] show ?case by simp
qed


subsection \<open>Sorting\<close>

lemma mset_insert_by: "mset (insert_by cmp x xs) = add_mset x (mset xs)"
  by (induction xs) auto

lemma mset_foldl_insert_by:
  "mset (foldl (\<lambda>sorted x. insert_by cmp x sorted) acc xs) = mset acc + mset xs"
  by (induction xs arbitrary: acc) (simp_all add: mset_insert_by)

lemma mset_sort_by: "mset (sort_by cmp xs) = mset xs"
  by (simp add: sort_by_def mset_foldl_insert_by)

lemma set_sort_by: "set (sort_by cmp xs) = set xs"
  using mset_sort_by [of cmp xs] by (metis set_mset_mset)

lemma strict_on_subset: "strict_on cmp S \<Longrightarrow> T \<subseteq> S \<Longrightarrow> strict_on cmp T"
  unfolding strict_on_def by blast

lemma sorted_insert_by:
  assumes "strict_on cmp S" "insert x (set xs) \<subseteq> S" "x \<notin> set xs"
    and "sorted_wrt (\<lambda>a b. cmp a b < 0) xs"
  shows "sorted_wrt (\<lambda>a b. cmp a b < 0) (insert_by cmp x xs)"
  using assms(2-)
proof (induction xs)
  case Nil
  then show ?case by simp
next
  case (Cons y ys)
  note so = assms(1)
  show ?case
  proof (cases "cmp x y < 0")
    case True
    have "cmp x z < 0" if "z \<in> set ys" for z
    proof -
      from Cons.prems that have "cmp y z < 0" by simp
      moreover from Cons.prems that have "x \<in> S" "y \<in> S" "z \<in> S" by auto
      ultimately show ?thesis using True so unfolding strict_on_def by blast
    qed
    with True Cons.prems show ?thesis by simp
  next
    case False
    from Cons.prems have "x \<noteq> y" "x \<in> S" "y \<in> S" by auto
    with False so have yx: "cmp y x < 0" unfolding strict_on_def by blast
    have "sorted_wrt (\<lambda>a b. cmp a b < 0) (insert_by cmp x ys)"
      using Cons by simp
    moreover have "set (insert_by cmp x ys) = insert x (set ys)"
      using mset_insert_by [of cmp x ys] by (metis set_mset_mset set_mset_add_mset_insert)
    ultimately show ?thesis using False yx Cons.prems by simp
  qed
qed

lemma sorted_foldl_insert_by:
  assumes "strict_on cmp S"
  shows "set acc \<union> set xs \<subseteq> S \<Longrightarrow> distinct (acc @ xs) \<Longrightarrow>
         sorted_wrt (\<lambda>a b. cmp a b < 0) acc \<Longrightarrow>
         sorted_wrt (\<lambda>a b. cmp a b < 0) (foldl (\<lambda>sorted x. insert_by cmp x sorted) acc xs)"
proof (induction xs arbitrary: acc)
  case Nil
  then show ?case by simp
next
  case (Cons x xs)
  have s: "sorted_wrt (\<lambda>a b. cmp a b < 0) (insert_by cmp x acc)"
    using assms Cons.prems by (intro sorted_insert_by [where S = S]) auto
  have m: "set (insert_by cmp x acc) = insert x (set acc)"
    using mset_insert_by [of cmp x acc] by (metis set_mset_mset set_mset_add_mset_insert)
  have d: "distinct (insert_by cmp x acc)"
    using mset_insert_by [of cmp x acc] Cons.prems
    by (metis distinct.simps(2) distinct_append mset.simps(2) mset_eq_imp_distinct_iff disjoint_iff list.set_intros(1))
  have "distinct (insert_by cmp x acc @ xs)"
    using d m Cons.prems by auto
  moreover have "set (insert_by cmp x acc) \<union> set xs \<subseteq> S" using m Cons.prems by auto
  ultimately show ?case using Cons.IH [of "insert_by cmp x acc"] s by simp
qed

lemma sorted_sort_by:
  "strict_on cmp S \<Longrightarrow> set xs \<subseteq> S \<Longrightarrow> distinct xs \<Longrightarrow>
   sorted_wrt (\<lambda>a b. cmp a b < 0) (sort_by cmp xs)"
  unfolding sort_by_def by (rule sorted_foldl_insert_by [where S = S]) simp_all


subsection \<open>The comparator of the root locale\<close>

text \<open>
  \<^const>\<open>localeCompare_root\<close> compares by a pair of keys that determines the string, so
  it orders every set of labels.
\<close>

lemma compare_weights_neg_iff: "compare_weights xs ys < 0 \<longleftrightarrow> 0 < compare_weights ys xs"
  by (induction xs ys rule: compare_weights.induct) auto

lemma compare_weights_zero_iff: "compare_weights xs ys = 0 \<longleftrightarrow> xs = ys"
  by (induction xs ys rule: compare_weights.induct) auto

lemma compare_weights_trans:
  "compare_weights xs ys < 0 \<Longrightarrow> compare_weights ys zs < 0 \<Longrightarrow> compare_weights xs zs < 0"
proof (induction xs ys arbitrary: zs rule: compare_weights.induct)
  case 1
  then show ?case by simp
next
  case (2 y ys)
  then show ?case by (cases zs) (auto split: if_splits)
next
  case (3 x xs)
  then show ?case by simp
next
  case (4 x xs y ys)
  show ?case
  proof (cases zs)
    case Nil
    with 4 show ?thesis by simp
  next
    case (Cons z zs')
    from "4.prems"(1) have xy: "x \<le> y" by (simp split: if_splits)
    from "4.prems"(2) Cons have yz: "y \<le> z" by (simp split: if_splits)
    show ?thesis
    proof (cases "x < z")
      case True
      with Cons show ?thesis by simp
    next
      case False
      with xy yz have e: "x = y" "y = z" by simp_all
      with "4.prems" Cons have "compare_weights xs ys < 0" "compare_weights ys zs' < 0" by simp_all
      with e have "compare_weights xs zs' < 0" using "4.IH" by simp
      with e Cons show ?thesis by simp
    qed
  qed
qed

lemma weights_inj:
  "primary_weight c = primary_weight d \<Longrightarrow> tertiary_weight c = tertiary_weight d \<Longrightarrow> c = d"
proof -
  assume p: "primary_weight c = primary_weight d" and t: "tertiary_weight c = tertiary_weight d"
  from t have u: "is_upper c = is_upper d"
    by (simp add: tertiary_weight_def split: if_splits)
  with p have "(of_char c :: nat) = of_char d"
    by (simp add: primary_weight_def split: if_splits)
  then show "c = d" by (simp only: of_char_eq_iff)
qed

lemma map_weights_inj:
  "map primary_weight a = map primary_weight b \<Longrightarrow>
   map tertiary_weight a = map tertiary_weight b \<Longrightarrow> a = b"
proof (induction a arbitrary: b)
  case Nil
  then show ?case by simp
next
  case (Cons c a)
  then obtain d b' where b: "b = d # b'" by (cases b) auto
  with Cons.prems have "c = d" by (auto intro: weights_inj)
  moreover from Cons b have "a = b'" by auto
  ultimately show ?case using b by simp
qed

lemma compare_weights_refl: "compare_weights xs xs = 0"
  by (simp add: compare_weights_zero_iff)

lemma localeCompare_root_neg:
  "localeCompare_root a b < 0 \<longleftrightarrow>
     compare_weights (map primary_weight a) (map primary_weight b) < 0
     \<or> (map primary_weight a = map primary_weight b
        \<and> compare_weights (map tertiary_weight a) (map tertiary_weight b) < 0)"
  by (auto simp: localeCompare_root_def Let_def compare_weights_zero_iff compare_weights_refl)

lemma localeCompare_root_zero: "localeCompare_root a b = 0 \<longleftrightarrow> a = b"
proof
  assume "localeCompare_root a b = 0"
  then have "map primary_weight a = map primary_weight b"
    and "map tertiary_weight a = map tertiary_weight b"
    by (auto simp: localeCompare_root_def Let_def compare_weights_zero_iff split: if_splits)
  then show "a = b" by (rule map_weights_inj)
next
  assume "a = b"
  then show "localeCompare_root a b = 0"
    by (simp add: localeCompare_root_def compare_weights_refl)
qed

lemma localeCompare_root_total:
  assumes "\<not> localeCompare_root a b < 0" "a \<noteq> b"
  shows "localeCompare_root b a < 0"
proof -
  let ?P = "\<lambda>x y. compare_weights (map primary_weight x) (map primary_weight y)"
  let ?T = "\<lambda>x y. compare_weights (map tertiary_weight x) (map tertiary_weight y)"
  show ?thesis
  proof (cases "map primary_weight a = map primary_weight b")
    case True
    with assms(1) have "\<not> ?T a b < 0" by (simp add: localeCompare_root_neg)
    moreover have "?T a b \<noteq> 0"
      using True assms(2) map_weights_inj by (auto simp: compare_weights_zero_iff)
    ultimately have "0 < ?T a b" by linarith
    then have "?T b a < 0" by (simp add: compare_weights_neg_iff [of "map tertiary_weight b"])
    with True show ?thesis by (simp add: localeCompare_root_neg)
  next
    case False
    from assms(1) have "\<not> ?P a b < 0" by (simp add: localeCompare_root_neg)
    moreover have "?P a b \<noteq> 0" using False by (simp add: compare_weights_zero_iff)
    ultimately have "0 < ?P a b" by linarith
    then have "?P b a < 0" by (simp add: compare_weights_neg_iff [of "map primary_weight b"])
    then show ?thesis by (simp add: localeCompare_root_neg)
  qed
qed

lemma localeCompare_root_trans:
  assumes "localeCompare_root a b < 0" "localeCompare_root b c < 0"
  shows "localeCompare_root a c < 0"
proof -
  let ?P = "\<lambda>x y. compare_weights (map primary_weight x) (map primary_weight y)"
  let ?T = "\<lambda>x y. compare_weights (map tertiary_weight x) (map tertiary_weight y)"
  from assms(1) consider (p1) "?P a b < 0"
    | (t1) "map primary_weight a = map primary_weight b" "?T a b < 0"
    by (auto simp: localeCompare_root_neg)
  then show ?thesis
  proof cases
    case p1
    from assms(2) consider (p2) "?P b c < 0"
      | (t2) "map primary_weight b = map primary_weight c" "?T b c < 0"
      by (auto simp: localeCompare_root_neg)
    then show ?thesis
    proof cases
      case p2
      with p1 have "?P a c < 0" by (rule compare_weights_trans)
      then show ?thesis by (simp add: localeCompare_root_neg)
    next
      case t2
      with p1 have "?P a c < 0" by simp
      then show ?thesis by (simp add: localeCompare_root_neg)
    qed
  next
    case t1
    from assms(2) consider (p2) "?P b c < 0"
      | (t2) "map primary_weight b = map primary_weight c" "?T b c < 0"
      by (auto simp: localeCompare_root_neg)
    then show ?thesis
    proof cases
      case p2
      with t1 have "?P a c < 0" by simp
      then show ?thesis by (simp add: localeCompare_root_neg)
    next
      case t2
      from t1(2) t2(2) have "?T a c < 0" by (rule compare_weights_trans)
      with t1(1) t2(1) show ?thesis by (simp add: localeCompare_root_neg)
    qed
  qed
qed

lemma localeCompare_root_asym:
  assumes "localeCompare_root a b < 0"
  shows "\<not> localeCompare_root b a < 0"
proof
  assume "localeCompare_root b a < 0"
  with assms have "localeCompare_root a a < 0" by (rule localeCompare_root_trans)
  moreover have "localeCompare_root a a = 0" by (simp add: localeCompare_root_zero)
  ultimately show False by simp
qed

lemma localeCompare_root_antisym: "localeCompare_root a b < 0 \<longleftrightarrow> 0 < localeCompare_root b a"
proof
  assume h: "localeCompare_root a b < 0"
  then have "\<not> localeCompare_root b a < 0" by (rule localeCompare_root_asym)
  moreover have "localeCompare_root b a \<noteq> 0"
  proof
    assume "localeCompare_root b a = 0"
    then have "b = a" by (simp only: localeCompare_root_zero)
    then have "localeCompare_root a b = 0" by (simp only: localeCompare_root_zero)
    with h show False by simp
  qed
  ultimately show "0 < localeCompare_root b a" by linarith
next
  assume h: "0 < localeCompare_root b a"
  then have "\<not> localeCompare_root b a < 0" by simp
  moreover have "b \<noteq> a"
  proof
    assume "b = a"
    then have "localeCompare_root b a = 0" by (simp only: localeCompare_root_zero)
    with h show False by simp
  qed
  ultimately show "localeCompare_root a b < 0" by (rule localeCompare_root_total)
qed

lemma orders_labels_root: "orders_labels localeCompare_root L"
proof -
  have 1: "(localeCompare_root a b < 0 \<longleftrightarrow> 0 < localeCompare_root b a)
           \<and> (localeCompare_root a b = 0 \<longleftrightarrow> a = b)" for a b
    using localeCompare_root_antisym [of a b] localeCompare_root_zero [of a b] by simp
  have 2: "localeCompare_root a b < 0 \<and> localeCompare_root b c < 0 \<longrightarrow> localeCompare_root a c < 0"
    for a b c
    using localeCompare_root_trans [of a b c] by simp
  show ?thesis unfolding orders_labels_def using 1 2 by blast
qed

subsection \<open>The output of \<^verbatim>\<open>countRealTypes\<close>\<close>

lemma entries_ok: "table_ok (foldl count_label [] ls)"
  by (simp add: table_ok_foldl table_ok_empty)

lemma entries_keys: "fst ` set (foldl count_label [] ls) = set ls"
  using keys_foldl [of "[]" ls] by simp

lemma entries_distinct: "distinct (foldl count_label [] ls)"
  using entries_ok [of ls] unfolding table_ok_def by (metis distinct_map)

lemma strict_on_entries:
  assumes "orders_labels cmp (set ls)"
  shows "strict_on (\<lambda>a b. cmp (fst a) (fst b)) (set (foldl count_label [] ls))"
proof -
  let ?E = "foldl count_label [] ls"
  let ?L = "set ls"
  have key: "fst p \<in> ?L" if "p \<in> set ?E" for p
    using that entries_keys [of ls] by force
  have inj: "fst p \<noteq> fst q" if "p \<in> set ?E" "q \<in> set ?E" "p \<noteq> q" for p q
    using that entries_ok [of ls] unfolding table_ok_def by (meson distinct_map inj_onD)
  have o1: "(cmp a b < 0 \<longleftrightarrow> 0 < cmp b a) \<and> (cmp a b = 0 \<longleftrightarrow> a = b)" if "a \<in> ?L" "b \<in> ?L" for a b
    using assms that unfolding orders_labels_def by blast
  have o2: "cmp a c < 0" if "a \<in> ?L" "b \<in> ?L" "c \<in> ?L" "cmp a b < 0" "cmp b c < 0" for a b c
    using assms that unfolding orders_labels_def by blast
  have irr: "\<not> cmp (fst p) (fst p) < 0" if "p \<in> set ?E" for p
    using o1 [OF key [OF that] key [OF that]] by simp
  have tot: "cmp (fst p) (fst q) < 0 \<or> cmp (fst q) (fst p) < 0"
    if "p \<in> set ?E" "q \<in> set ?E" "p \<noteq> q" for p q
  proof -
    have "cmp (fst p) (fst q) \<noteq> 0" using o1 [OF key [OF that(1)] key [OF that(2)]] inj [OF that] by simp
    then have "cmp (fst p) (fst q) < 0 \<or> 0 < cmp (fst p) (fst q)" by linarith
    then show ?thesis using o1 [OF key [OF that(2)] key [OF that(1)]] by blast
  qed
  have tr: "cmp (fst p) (fst r) < 0"
    if "p \<in> set ?E" "q \<in> set ?E" "r \<in> set ?E" "cmp (fst p) (fst q) < 0" "cmp (fst q) (fst r) < 0" for p q r
    using o2 [OF key [OF that(1)] key [OF that(2)] key [OF that(3)] that(4) that(5)] .
  show ?thesis
    unfolding strict_on_def using irr tot tr by blast
qed

lemma countRealTypes_classified:
  assumes "getRealTypesOfItems arr = Inr ts"
  shows "countRealTypes cmp arr = Inr (histogram cmp (present ts))"
proof -
  from classify_ok [OF assms] have ts: "ts = map (map_option label_of) arr"
    and c: "\<forall>v \<in> set (present arr). getRealType v = Inr (label_of v)" by simp_all
  from ts have "present ts = map label_of (present arr)" by (simp add: present_map)
  with forEach_fold [OF c table_ok_empty] show ?thesis
    by (simp add: countRealTypes_def histogram_def)
qed

lemma countRealTypes_Inr:
  assumes "countRealTypes cmp arr = Inr out"
  shows "\<exists>ts. getRealTypesOfItems arr = Inr ts"
proof -
  from assms obtain E where "forEach_tally [] arr = Inr E"
    by (auto simp: countRealTypes_def split: sum.splits)
  then have "\<forall>v \<in> set (present arr). getRealType v = Inr (label_of v)"
    by (rule forEach_classified)
  then have "\<forall>v \<in> set (present arr). \<exists>l. getRealType v = Inr l" by blast
  then show ?thesis using classify_all by blast
qed

lemma histogram_sorted:
  assumes "orders_labels cmp (set ls)"
  shows "sorted_wrt (\<lambda>a b. cmp (fst a) (fst b) < 0) (histogram cmp ls)"
  unfolding histogram_def
  by (rule sorted_sort_by [OF strict_on_entries [OF assms] subset_refl entries_distinct])

lemma histogram_set: "set (histogram cmp ls) = set (foldl count_label [] ls)"
  by (simp add: histogram_def set_sort_by)

lemma histogram_mset: "mset (histogram cmp ls) = mset (foldl count_label [] ls)"
  by (simp add: histogram_def mset_sort_by)

lemma histogram_sum: "sum_list (map snd (histogram cmp ls)) = length ls"
proof -
  have "mset (map snd (histogram cmp ls)) = mset (map snd (foldl count_label [] ls))"
    by (simp only: mset_map histogram_mset)
  then have "sum_list (map snd (histogram cmp ls)) = sum_list (map snd (foldl count_label [] ls))"
    by (metis sum_mset_sum_list)
  also have "\<dots> = length ls" using sum_foldl [OF table_ok_empty, of ls] by simp
  finally show ?thesis .
qed

lemma histogram_labels: "set (map fst (histogram cmp ls)) = set ls"
  using entries_keys [of ls] by (simp add: histogram_set)

lemma histogram_counts: "\<forall>p \<in> set (histogram cmp ls). 1 \<le> snd p"
proof -
  have "0 \<notin> snd ` set (histogram cmp ls)"
    using entries_ok [of ls] by (simp add: histogram_set table_ok_def)
  then show ?thesis by (metis image_eqI less_one not_le)
qed

lemma histogram_distinct: "distinct (map fst (histogram cmp ls))"
proof -
  have "mset (map fst (histogram cmp ls)) = mset (map fst (foldl count_label [] ls))"
    by (simp only: mset_map histogram_mset)
  then show ?thesis
    using entries_ok [of ls] unfolding table_ok_def by (metis mset_eq_imp_distinct_iff)
qed


lemma present_length: "None \<notin> set slots \<Longrightarrow> length (present slots) = length slots"
  by (induction slots rule: present.induct) auto


text \<open>
  C1, as stated, fails. The sort calls \<^verbatim>\<open>localeCompare\<close>, which is locale-sensitive. In
  the root and English locales \<^verbatim>\<open>countRealTypes([NaN, []])\<close> puts \<^verbatim>\<open>"array"\<close> before
  \<^verbatim>\<open>"NaN"\<close>, while in code point order the capital \<^verbatim>\<open>N\<close> of \<^verbatim>\<open>"NaN"\<close> comes before the
  lower-case \<^verbatim>\<open>a\<close> of \<^verbatim>\<open>"array"\<close>: the output is not sorted by code point.
\<close>

theorem countRealTypes_codepoint_counterexample:
  "countRealTypes localeCompare_root [Some (VNumber NaN), Some (VArray 0 [])]
     = Inr [(''array'', 1), (''NaN'', 1)]
   \<and> 0 < codepointCompare ''array'' ''NaN''
   \<and> \<not> sorted_wrt (\<lambda>a b. codepointCompare (fst a) (fst b) \<le> 0) [(''array'', 1::nat), (''NaN'', 1)]"
proof -
  have a: "countRealTypes localeCompare_root [Some (VNumber NaN), Some (VArray 0 [])]
     = Inr [(''array'', 1), (''NaN'', 1)]"
    by (simp add: countRealTypes_def sort_by_def tally_def get_prop_def getRealType_def
        localeCompare_root_def primary_weight_def tertiary_weight_def is_upper_def)
  have b: "codepointCompare ''array'' ''NaN'' = 1" by (simp add: codepointCompare_def)
  show ?thesis by (simp add: a b)
qed

text \<open>
  C1, amended. For every input array, the pairs returned by \<^verbatim>\<open>countRealTypes\<close> are in
  strictly increasing order of their labels under the host's \<^verbatim>\<open>localeCompare\<close>,
  provided that comparator orders the labels of the input (\<^const>\<open>orders_labels\<close>). The
  order is that of the locale, not the code point order. The function returns whenever
  the elements have labels.
\<close>

theorem countRealTypes_sorted_by_localeCompare:
  "getRealTypesOfItems arr = Inr ts \<Longrightarrow> orders_labels localeCompare (set (present ts)) \<Longrightarrow>
   \<exists>out. countRealTypes localeCompare arr = Inr out
     \<and> sorted_wrt (\<lambda>a b. localeCompare (fst a) (fst b) < 0) out"
  using countRealTypes_classified histogram_sorted by blast

text \<open>
  C1, amended, at the array \<^verbatim>\<open>[NaN, [], null]\<close> with the comparator of the root locale.
\<close>

theorem countRealTypes_sorted_by_localeCompare_witness:
  "getRealTypesOfItems [Some (VNumber NaN), Some (VArray 0 []), Some VNull]
     = Inr [Some ''NaN'', Some ''array'', Some ''null'']
   \<and> orders_labels localeCompare_root (set (present [Some ''NaN'', Some ''array'', Some ''null'']))
   \<and> countRealTypes localeCompare_root [Some (VNumber NaN), Some (VArray 0 []), Some VNull]
       = Inr [(''array'', 1), (''NaN'', 1), (''null'', 1)]
   \<and> sorted_wrt (\<lambda>a b. localeCompare_root (fst a) (fst b) < 0)
        [(''array'', 1::nat), (''NaN'', 1), (''null'', 1)]"
proof -
  let ?A = "[Some (VNumber NaN), Some (VArray 0 []), Some VNull]"
  let ?ts = "[Some ''NaN'', Some ''array'', Some ''null'']"
  have c: "getRealTypesOfItems ?A = Inr ?ts" by (simp add: getRealType_def)
  have h: "orders_labels localeCompare_root (set (present ?ts))" by (rule orders_labels_root)
  have v: "countRealTypes localeCompare_root ?A = Inr [(''array'', 1), (''NaN'', 1), (''null'', 1)]"
    by (simp add: countRealTypes_def sort_by_def tally_def get_prop_def getRealType_def
        localeCompare_root_def primary_weight_def tertiary_weight_def is_upper_def)
  from countRealTypes_sorted_by_localeCompare [OF c h] v
  have "sorted_wrt (\<lambda>a b. localeCompare_root (fst a) (fst b) < 0)
          [(''array'', 1::nat), (''NaN'', 1), (''null'', 1)]" by auto
  with c h v show ?thesis by blast
qed

text \<open>
  C3, as stated, fails. \<^verbatim>\<open>forEach\<close> does not call its callback for a hole: on the sparse
  array \<^verbatim>\<open>[1, , 2]\<close>, of length 3, the only count is 2.
\<close>

theorem countRealTypes_round_trip_counterexample:
  "countRealTypes localeCompare_root [Some (VNumber (Finite 1)), None, Some (VNumber (Finite 2))]
     = Inr [(''number'', 2)]
   \<and> sum_list (map snd [(''number'', 2::nat)]) = 2
   \<and> length [Some (VNumber (Finite 1)), None, Some (VNumber (Finite 2))] = 3"
  by (simp add: countRealTypes_def sort_by_def tally_def get_prop_def getRealType_def)

text \<open>
  C3, amended. For every array \<^verbatim>\<open>S\<close> whose elements have labels (and every comparator) the
  counts in \<^verbatim>\<open>countRealTypes(S)\<close> add up to the number of elements present in \<^verbatim>\<open>S\<close>, which is
  the length of \<^verbatim>\<open>S\<close> when it has no hole, and the labels in it are exactly the labels
  \<^verbatim>\<open>getRealType\<close> gives to those elements.
\<close>

theorem countRealTypes_round_trip:
  "(getRealTypesOfItems S = Inr ts \<longrightarrow>
      (\<exists>out. countRealTypes localeCompare S = Inr out
         \<and> sum_list (map snd out) = length (present S)
         \<and> set (map fst out) = set (present ts)))
   \<and> (None \<notin> set S \<longrightarrow> length (present S) = length S)"
proof -
  have "\<exists>out. countRealTypes localeCompare S = Inr out
         \<and> sum_list (map snd out) = length (present S)
         \<and> set (map fst out) = set (present ts)"
    if c: "getRealTypesOfItems S = Inr ts"
  proof -
    from classify_ok [OF c] have "ts = map (map_option label_of) S" by simp
    then have "length (present ts) = length (present S)" by (simp add: present_map)
    with countRealTypes_classified [OF c, of localeCompare]
      histogram_labels [of localeCompare "present ts"] show ?thesis
      by (simp add: histogram_sum)
  qed
  then show ?thesis using present_length by blast
qed

text \<open>
  C3, amended, at the array \<^verbatim>\<open>[true, null, , false, false, {}]\<close>, the array of the source's
  test with a hole added.
\<close>

theorem countRealTypes_round_trip_witness:
  "countRealTypes localeCompare_root
      [Some (VBoolean True), Some VNull, None, Some (VBoolean False), Some (VBoolean False),
       Some (VObject 0 OtherObject ''[object Object]'')]
     = Inr [(''boolean'', 3), (''null'', 1), (''object'', 1)]
   \<and> sum_list (map snd [(''boolean'', 3::nat), (''null'', 1), (''object'', 1)]) = 5
   \<and> length (present
      [Some (VBoolean True), Some VNull, None, Some (VBoolean False), Some (VBoolean False),
       Some (VObject 0 OtherObject ''[object Object]'')]) = 5"
proof -
  let ?S = "[Some (VBoolean True), Some VNull, None, Some (VBoolean False), Some (VBoolean False),
       Some (VObject 0 OtherObject ''[object Object]'')]"
  let ?ts = "[Some ''boolean'', Some ''null'', None, Some ''boolean'', Some ''boolean'', Some ''object'']"
  have c: "getRealTypesOfItems ?S = Inr ?ts" by (simp add: getRealType_def)
  have v: "countRealTypes localeCompare_root ?S = Inr [(''boolean'', 3), (''null'', 1), (''object'', 1)]"
    by (simp add: countRealTypes_def sort_by_def tally_def get_prop_def getRealType_def
        localeCompare_root_def primary_weight_def tertiary_weight_def is_upper_def)
  from countRealTypes_round_trip [of ?S ?ts localeCompare_root] c v
  have "sum_list (map snd [(''boolean'', 3::nat), (''null'', 1), (''object'', 1)]) = length (present ?S)"
    by auto
  with v show ?thesis by simp
qed

text \<open>
  C4. \<^verbatim>\<open>countRealTypes\<close> of the empty array is the empty array; in every output each
  count is at least 1 and no label occurs twice. There is an output whenever no element
  is an object whose prototype cannot be read.
\<close>

theorem countRealTypes_entries:
  "countRealTypes localeCompare [] = Inr []
   \<and> (countRealTypes localeCompare arr = Inr out \<longrightarrow>
        (\<forall>p \<in> set out. 1 \<le> snd p) \<and> distinct (map fst out))
   \<and> ((\<forall>v \<in> set (present arr). \<not> unreadable v) \<longrightarrow>
        (\<exists>out. countRealTypes localeCompare arr = Inr out))"
proof -
  have a: "countRealTypes localeCompare [] = Inr []" by (simp add: countRealTypes_def sort_by_def)
  have b: "(\<forall>p \<in> set out. 1 \<le> snd p) \<and> distinct (map fst out)"
    if r: "countRealTypes localeCompare arr = Inr out"
  proof -
    from countRealTypes_Inr [OF r] obtain ts where "getRealTypesOfItems arr = Inr ts" by blast
    from countRealTypes_classified [OF this, of localeCompare] r
    have "out = histogram localeCompare (present ts)" by simp
    then show ?thesis using histogram_counts histogram_distinct by blast
  qed
  have c: "\<exists>out. countRealTypes localeCompare arr = Inr out"
    if "\<forall>v \<in> set (present arr). \<not> unreadable v"
    using countRealTypes_classified [OF classify_readable [OF that]] by blast
  from a b c show ?thesis by blast
qed

text \<open>
  C4 at the array \<^verbatim>\<open>[true, null, false, false, {}]\<close> of the source's tests.
\<close>

theorem countRealTypes_entries_witness:
  "countRealTypes localeCompare_root
     [Some (VBoolean True), Some VNull, Some (VBoolean False), Some (VBoolean False),
      Some (VObject 0 OtherObject ''[object Object]'')]
     = Inr [(''boolean'', 3), (''null'', 1), (''object'', 1)]
   \<and> list_all (\<lambda>p. 1 \<le> snd p) [(''boolean'', 3::nat), (''null'', 1), (''object'', 1)]
   \<and> distinct (map fst [(''boolean'', 3::nat), (''null'', 1), (''object'', 1)])"
proof -
  let ?A = "[Some (VBoolean True), Some VNull, Some (VBoolean False), Some (VBoolean False),
      Some (VObject 0 OtherObject ''[object Object]'')]"
  let ?out = "[(''boolean'', 3::nat), (''null'', 1), (''object'', 1)]"
  have v: "countRealTypes localeCompare_root ?A = Inr ?out"
    by (simp add: countRealTypes_def sort_by_def tally_def get_prop_def getRealType_def
        localeCompare_root_def primary_weight_def tertiary_weight_def is_upper_def)
  have "list_all (\<lambda>p. 1 \<le> snd p) ?out" and "distinct (map fst ?out)"
    using countRealTypes_entries [of localeCompare_root ?A ?out] v unfolding list_all_iff by blast+
  with v show ?thesis by blast
qed



section \<open>Properties of the equality of the test helper\<close>









end
